theory Spec2Isabelle
  imports Complex_Main
begin

section \<open>Shared DOM vocabulary\<close>

text \<open>
  The script talks to the page through class lists, a few element properties and
  listener registrations. A class list (DOMTokenList) is an ordered list of tokens
  without duplicates: \<open>add\<close> appends a token that is absent, \<open>remove\<close> deletes it,
  \<open>toggle\<close> does the one or the other, \<open>contains\<close> tests membership.
  A member access on \<open>null\<close> throws a TypeError in JavaScript; an element that a
  selector may fail to find is an \<open>option\<close>, and the operations that would
  dereference it return the error. A selector string that is no selector throws a
  SyntaxError, and a reference to a global the host does not define throws a
  ReferenceError.
\<close>

datatype js_error = TypeError | SyntaxError | ReferenceError

type_synonym classList = "string list"

definition cl_contains :: "string \<Rightarrow> classList \<Rightarrow> bool" where
  "cl_contains c cs = (c \<in> set cs)"

definition cl_add :: "string \<Rightarrow> classList \<Rightarrow> classList" where
  "cl_add c cs = (if c \<in> set cs then cs else cs @ [c])"

definition cl_remove :: "string \<Rightarrow> classList \<Rightarrow> classList" where
  "cl_remove c cs = removeAll c cs"

definition cl_toggle :: "string \<Rightarrow> classList \<Rightarrow> classList" where
  "cl_toggle c cs = (if c \<in> set cs then removeAll c cs else cs @ [c])"

text \<open>
  \<open>el.addEventListener(type, f)\<close>: throws on a \<open>null\<close> receiver, otherwise
  registers the one listener.
\<close>

definition addEventListener :: "'e option \<Rightarrow> 'l \<Rightarrow> js_error + 'l list" where
  "addEventListener el l = (case el of None \<Rightarrow> Inl TypeError | Some _ \<Rightarrow> Inr [l])"

text \<open>
  \<open>new IntersectionObserver(callback, options)\<close>: the constructor is a global of the
  host; where the host does not define it, the reference throws.
\<close>

definition new_IntersectionObserver :: "bool \<Rightarrow> js_error + unit" where
  "new_IntersectionObserver defined = (if defined then Inr () else Inl ReferenceError)"


section \<open>debounce\<close>

text \<open>
  \<^verbatim>\<open>
  const debounce = (func, wait = 20) => {
      let timeout;
      return function executedFunction(...args) {
          const later = () => { clearTimeout(timeout); func(...args); };
          clearTimeout(timeout);
          timeout = setTimeout(later, wait);
      };
  };
  \<close>
  The closure's state is the variable \<open>timeout\<close>; the host's state is the table of
  pending timers, each with its handle, the instant it is due and the arguments its
  \<open>later\<close> closure captured. Time is a logical clock in the unit of \<open>wait\<close>.
  \<open>calls\<close> logs every execution of \<open>func\<close> with the instant and the arguments.
\<close>

record 'a timer =
  tid :: nat
  due :: nat
  targs :: 'a

record 'a debounced =
  now :: nat
  timeout :: "nat option"
  timers :: "'a timer list"
  next_id :: nat
  calls :: "(nat \<times> 'a) list"

text \<open>\<open>clearTimeout(undefined)\<close> and a handle that is no longer pending do nothing.\<close>

definition clearTimeout :: "nat option \<Rightarrow> 'a debounced \<Rightarrow> 'a debounced" where
  "clearTimeout h st =
     (case h of
        None \<Rightarrow> st
      | Some i \<Rightarrow> st\<lparr>timers := filter (\<lambda>x. tid x \<noteq> i) (timers st)\<rparr>)"

definition setTimeout :: "'a \<Rightarrow> nat \<Rightarrow> 'a debounced \<Rightarrow> nat \<times> 'a debounced" where
  "setTimeout a wait st =
     (next_id st,
      st\<lparr>timers := timers st @ [\<lparr>tid = next_id st, due = now st + wait, targs = a\<rparr>],
         next_id := Suc (next_id st)\<rparr>)"

definition later :: "'a \<Rightarrow> 'a debounced \<Rightarrow> 'a debounced" where
  "later a st =
     (let st1 = clearTimeout (timeout st) st
      in st1\<lparr>calls := calls st1 @ [(now st1, a)]\<rparr>)"

definition executedFunction :: "nat \<Rightarrow> 'a \<Rightarrow> 'a debounced \<Rightarrow> 'a debounced" where
  "executedFunction wait a st =
     (let st1 = clearTimeout (timeout st) st;
          (i, st2) = setTimeout a wait st1
      in st2\<lparr>timeout := Some i\<rparr>)"

text \<open>
  The event loop: among the timers that are due, the one due first runs first, and of
  two due at the same instant the one set first.
\<close>

fun earliest :: "'a timer list \<Rightarrow> 'a timer option" where
  "earliest [] = None"
| "earliest (x # xs) =
     (case earliest xs of
        None \<Rightarrow> Some x
      | Some y \<Rightarrow> if due x \<le> due y then Some x else Some y)"

definition fire :: "'a timer \<Rightarrow> 'a debounced \<Rightarrow> 'a debounced" where
  "fire x st =
     later (targs x)
       (st\<lparr>now := max (now st) (due x),
           timers := filter (\<lambda>y. tid y \<noteq> tid x) (timers st)\<rparr>)"

lemma earliest_mem: "earliest xs = Some x \<Longrightarrow> x \<in> set xs"
  by (induction xs arbitrary: x) (auto split: option.splits if_splits)

lemma timers_clearTimeout_le: "length (timers (clearTimeout h st)) \<le> length (timers st)"
  by (cases h) (simp_all add: clearTimeout_def)

lemma fire_decreases:
  assumes "x \<in> set (timers st)"
  shows "length (timers (fire x st)) < length (timers st)"
proof -
  let ?st' = "st\<lparr>now := max (now st) (due x), timers := filter (\<lambda>y. tid y \<noteq> tid x) (timers st)\<rparr>"
  have "length (timers ?st') < length (timers st)"
    using assms by (auto intro!: length_filter_less)
  moreover have "length (timers (fire x st)) \<le> length (timers ?st')"
    unfolding fire_def later_def Let_def
    using timers_clearTimeout_le [of "timeout ?st'" ?st'] by simp
  ultimately show ?thesis by linarith
qed

text \<open>
  \<open>run_until t\<close> lets the clock reach \<open>t\<close>, running every timer due by then. A timer
  due at the very instant of an invocation runs before it.
\<close>

function run_until :: "nat \<Rightarrow> 'a debounced \<Rightarrow> 'a debounced" where
  "run_until t st =
     (case earliest (filter (\<lambda>x. due x \<le> t) (timers st)) of
        None \<Rightarrow> st\<lparr>now := max (now st) t\<rparr>
      | Some x \<Rightarrow> run_until t (fire x st))"
  by pat_completeness auto
termination
proof (relation "measure (\<lambda>(t, st). length (timers st))")
  show "wf (measure (\<lambda>(t, st::'a debounced). length (timers st)))" by simp
next
  fix t and st :: "'a debounced" and x
  assume "earliest (filter (\<lambda>x. due x \<le> t) (timers st)) = Some x"
  then have "x \<in> set (timers st)"
    using earliest_mem by fastforce
  then show "((t, fire x st), (t, st)) \<in> measure (\<lambda>(t, st). length (timers st))"
    using fire_decreases by simp
qed

text \<open>The state right after \<open>debounce(func, wait)\<close> returned: nothing pending.\<close>

definition fresh :: "'a debounced" where
  "fresh = \<lparr>now = 0, timeout = None, timers = [], next_id = 1, calls = []\<rparr>"

text \<open>An invocation \<open>(t, args)\<close>: the clock reaches \<open>t\<close>, then the wrapper runs.\<close>

definition invoke_at :: "nat \<Rightarrow> 'a debounced \<Rightarrow> nat \<times> 'a \<Rightarrow> 'a debounced" where
  "invoke_at wait st ev = executedFunction wait (snd ev) (run_until (fst ev) st)"

definition invoke_all :: "nat \<Rightarrow> (nat \<times> 'a) list \<Rightarrow> 'a debounced \<Rightarrow> 'a debounced" where
  "invoke_all wait evs st = foldl (invoke_at wait) st evs"

text \<open>
  A burst: the instants do not go back, and each is less than \<open>w\<close> after the one
  before it.
\<close>

fun burst :: "nat \<Rightarrow> nat list \<Rightarrow> bool" where
  "burst w [] = True"
| "burst w [t] = True"
| "burst w (t1 # t2 # ts) = (t1 \<le> t2 \<and> t2 < t1 + w \<and> burst w (t2 # ts))"

section \<open>MobileMenu\<close>

text \<open>
  The page as the widget sees it: the toggle control \<open>$('.mobile-menu-toggle')\<close> and
  the panel \<open>$('.nav-links')\<close> with their class lists (\<open>None\<close> when the selector finds
  nothing), the number of anchors \<open>$$('.nav-links .nav-item a')\<close>, and
  \<open>document.body.style.overflow\<close>.
\<close>

record menu_dom =
  toggle :: "classList option"
  menu :: "classList option"
  menuItems :: nat
  overflow :: string

text \<open>
  \<^verbatim>\<open>
  toggleMenu() {
      this.toggle.classList.toggle('active');
      this.menu.classList.toggle('active');
      document.body.style.overflow = this.menu.classList.contains('active') ? 'hidden' : '';
  }
  closeMenu() {
      this.toggle.classList.remove('active');
      this.menu.classList.remove('active');
      document.body.style.overflow = '';
  }
  \<close>
\<close>

definition toggleMenu :: "menu_dom \<Rightarrow> js_error + menu_dom" where
  "toggleMenu d =
     (case toggle d of
        None \<Rightarrow> Inl TypeError
      | Some tc \<Rightarrow>
          (case menu d of
             None \<Rightarrow> Inl TypeError
           | Some mc \<Rightarrow>
               (let tc' = cl_toggle ''active'' tc;
                    mc' = cl_toggle ''active'' mc
                in Inr (d\<lparr>toggle := Some tc', menu := Some mc',
                          overflow := (if cl_contains ''active'' mc' then ''hidden'' else [])\<rparr>))))"

definition closeMenu :: "menu_dom \<Rightarrow> js_error + menu_dom" where
  "closeMenu d =
     (case toggle d of
        None \<Rightarrow> Inl TypeError
      | Some tc \<Rightarrow>
          (case menu d of
             None \<Rightarrow> Inl TypeError
           | Some mc \<Rightarrow>
               Inr (d\<lparr>toggle := Some (cl_remove ''active'' tc),
                       menu := Some (cl_remove ''active'' mc),
                       overflow := []\<rparr>)))"

text \<open>
  The listeners \<open>init\<close> registers: one on the toggle, one on each menu item, a click
  and a keydown listener on the document.
\<close>

datatype menu_listener = ToggleClick | ItemClick nat | DocumentClick | DocumentKeydown

definition MobileMenu_init :: "menu_dom \<Rightarrow> js_error + menu_listener list" where
  "MobileMenu_init d =
     (if toggle d = None \<or> menu d = None then Inr []
      else
        (case addEventListener (toggle d) ToggleClick of
           Inl e \<Rightarrow> Inl e
         | Inr ls \<Rightarrow> Inr (ls @ map ItemClick [0 ..< menuItems d] @ [DocumentClick, DocumentKeydown])))"

text \<open>
  A click carries where its target lies: inside the toggle, inside the panel, and
  inside which menu item, if any (\<open>contains\<close> and bubbling read nothing else of it).
  A keydown carries its key.
\<close>

datatype dom_event = Click bool bool "nat option" | Keydown string

fun run_listener :: "menu_listener \<Rightarrow> dom_event \<Rightarrow> menu_dom \<Rightarrow> js_error + menu_dom" where
  "run_listener ToggleClick (Click in_toggle in_menu item) d =
     (if in_toggle then toggleMenu d else Inr d)"
| "run_listener (ItemClick k) (Click in_toggle in_menu item) d =
     (if item = Some k then closeMenu d else Inr d)"
| "run_listener DocumentClick (Click in_toggle in_menu item) d =
     (if \<not> in_menu \<and> \<not> in_toggle then closeMenu d else Inr d)"
| "run_listener DocumentKeydown (Keydown key) d =
     (if key = ''Escape'' then closeMenu d else Inr d)"
| "run_listener _ _ d = Inr d"

text \<open>
  Dispatch runs the registered listeners in order (the element's before the
  document's, as the event bubbles); a throw ends the run as an error value.
\<close>

fun dispatch :: "menu_listener list \<Rightarrow> dom_event \<Rightarrow> menu_dom \<Rightarrow> js_error + menu_dom" where
  "dispatch [] ev d = Inr d"
| "dispatch (l # ls) ev d =
     (case run_listener l ev d of Inl e \<Rightarrow> Inl e | Inr d' \<Rightarrow> dispatch ls ev d')"

fun dispatch_all :: "menu_listener list \<Rightarrow> dom_event list \<Rightarrow> menu_dom \<Rightarrow> js_error + menu_dom" where
  "dispatch_all ls [] d = Inr d"
| "dispatch_all ls (ev # evs) d =
     (case dispatch ls ev d of Inl e \<Rightarrow> Inl e | Inr d' \<Rightarrow> dispatch_all ls evs d')"

text \<open>The widget from construction on: \<open>init\<close>, then the events.\<close>

definition MobileMenu_run :: "menu_dom \<Rightarrow> dom_event list \<Rightarrow> js_error + menu_dom" where
  "MobileMenu_run d evs =
     (case MobileMenu_init d of Inl e \<Rightarrow> Inl e | Inr ls \<Rightarrow> dispatch_all ls evs d)"

definition menu_open :: "menu_dom \<Rightarrow> bool" where
  "menu_open d = (case menu d of None \<Rightarrow> False | Some mc \<Rightarrow> cl_contains ''active'' mc)"

definition scroll_locked :: "menu_dom \<Rightarrow> bool" where
  "scroll_locked d = (overflow d = ''hidden'')"

text \<open>
  The state machine as the specification words it, to be compared with the code: two
  states; a toggle click flips; a link click, an outside click and Escape close an
  open menu (and leave a closed one closed).
\<close>

datatype menu_state = CLOSED | OPEN

datatype menu_event = ToggleControlClick | NavLinkClick nat | OutsideClick | EscapeKey

fun spec_step :: "menu_state \<Rightarrow> menu_event \<Rightarrow> menu_state" where
  "spec_step CLOSED ToggleControlClick = OPEN"
| "spec_step OPEN ToggleControlClick = CLOSED"
| "spec_step OPEN _ = CLOSED"
| "spec_step CLOSED _ = CLOSED"

text \<open>
  The DOM event behind each event of the state machine: a click within the toggle
  (outside the panel), a click within the \<open>k\<close>-th menu item (inside the panel), a click
  outside both, and a keydown of Escape.
\<close>

fun dom_event_of :: "menu_event \<Rightarrow> dom_event" where
  "dom_event_of ToggleControlClick = Click True False None"
| "dom_event_of (NavLinkClick k) = Click False True (Some k)"
| "dom_event_of OutsideClick = Click False False None"
| "dom_event_of EscapeKey = Keydown ''Escape''"

fun link_exists :: "nat \<Rightarrow> menu_event \<Rightarrow> bool" where
  "link_exists n (NavLinkClick k) = (k < n)"
| "link_exists n _ = True"


section \<open>SmoothScroll\<close>

text \<open>
  The click handler of one anchor. \<open>document.querySelector\<close> is the host's: the
  handler takes it as a parameter \<open>qs\<close>, which may return an element, \<open>null\<close>, or
  throw (a SyntaxError on a string that is no valid selector). The effect of a click is
  whether \<open>preventDefault\<close> ran and the \<open>window.scrollTo\<close> request made, if any.
\<close>

record element =
  offsetTop :: int

record scroll_options =
  scroll_top :: int
  behavior :: string

record click_effect =
  defaultPrevented :: bool
  scrollTo :: "scroll_options option"

definition no_effect :: click_effect where
  "no_effect = \<lparr>defaultPrevented = False, scrollTo = None\<rparr>"

text \<open>
  \<^verbatim>\<open>
  const href = anchor.getAttribute('href');
  if (!href || href === '#') return;
  const target = $(href);
  if (target) {
      e.preventDefault();
      const offsetTop = target.offsetTop - 100;
      window.scrollTo({ top: offsetTop, behavior: 'smooth' });
  }
  \<close>
\<close>

definition SmoothScroll_click ::
  "(string \<Rightarrow> js_error + element option) \<Rightarrow> string option \<Rightarrow> js_error + click_effect" where
  "SmoothScroll_click qs href =
     (case href of
        None \<Rightarrow> Inr no_effect
      | Some h \<Rightarrow>
          if h = [] \<or> h = ''#'' then Inr no_effect
          else
            (case qs h of
               Inl e \<Rightarrow> Inl e
             | Inr None \<Rightarrow> Inr no_effect
             | Inr (Some target) \<Rightarrow>
                 Inr \<lparr>defaultPrevented = True,
                      scrollTo = Some \<lparr>scroll_top = offsetTop target - 100,
                                       behavior = ''smooth''\<rparr>\<rparr>))"

text \<open>\<open>init\<close> gives each anchor of \<open>$$('a[href^="#"]')\<close> its listener; none, none.\<close>

definition SmoothScroll_init :: "'a list \<Rightarrow> js_error + 'a list" where
  "SmoothScroll_init anchors =
     fold (\<lambda>a acc. case acc of Inl e \<Rightarrow> Inl e
                    | Inr ls \<Rightarrow> (case addEventListener (Some a) a of Inl e \<Rightarrow> Inl e
                                 | Inr l \<Rightarrow> Inr (ls @ l)))
       anchors (Inr [])"

text \<open>
  The page as this widget sees it: the \<open>href\<close> attribute of each \<open>a\<close> element
  (\<open>None\<close> when it has none), in document order, and the elements that have an \<open>id\<close>,
  with that \<open>id\<close>, in document order. An anchor is identified by its position.
  \<open>$$('a[href^="#"]')\<close> selects the anchors whose \<open>href\<close> starts with \<open>#\<close>.
\<close>

record scroll_page =
  page_anchors :: "string option list"
  page_elements :: "(string \<times> element) list"

definition hash_anchors :: "string option list \<Rightarrow> nat list" where
  "hash_anchors hrefs =
     filter (\<lambda>k. case hrefs ! k of None \<Rightarrow> False | Some h \<Rightarrow> take 1 h = ''#'')
       [0 ..< length hrefs]"

text \<open>
  The host's \<open>document.querySelector\<close> on strings that start with \<open>#\<close>, after the CSS
  syntax of an ID selector. A name starts with a letter, an underscore or a character
  beyond ASCII, and goes on with these, digits and hyphens; an identifier is a name,
  or a hyphen and a name, or two hyphens and name characters.
  \<^item> \<open>#\<close> followed by an identifier and nothing else is an ID selector: the result is
    the first element with that \<open>id\<close>, or \<open>null\<close>.
  \<^item> \<open>#\<close> followed by what cannot start an identifier (nothing, a digit, a hyphen and
    a digit, punctuation, a space) is no selector: a SyntaxError.
  \<^item> Every other string (a compound or complex selector, an escape, a string that
    does not start with \<open>#\<close>) is left to \<open>other\<close>, the rest of the host's function.
\<close>

definition is_letter :: "char \<Rightarrow> bool" where
  "is_letter c \<longleftrightarrow>
     (let n = (of_char c :: nat) in (65 \<le> n \<and> n \<le> 90) \<or> (97 \<le> n \<and> n \<le> 122))"

definition is_digit :: "char \<Rightarrow> bool" where
  "is_digit c \<longleftrightarrow> (let n = (of_char c :: nat) in 48 \<le> n \<and> n \<le> 57)"

definition name_start_char :: "char \<Rightarrow> bool" where
  "name_start_char c \<longleftrightarrow> is_letter c \<or> c = CHR ''_'' \<or> 128 \<le> (of_char c :: nat)"

definition name_char :: "char \<Rightarrow> bool" where
  "name_char c \<longleftrightarrow> name_start_char c \<or> is_digit c \<or> c = CHR ''-''"

fun starts_ident :: "string \<Rightarrow> bool" where
  "starts_ident [] = False"
| "starts_ident [c] = name_start_char c"
| "starts_ident (c # d # cs) =
     (name_start_char c \<or> (c = CHR ''-'' \<and> (name_start_char d \<or> d = CHR ''-'')))"

definition css_ident :: "string \<Rightarrow> bool" where
  "css_ident s \<longleftrightarrow> starts_ident s \<and> list_all name_char s"

definition backslash :: char where
  "backslash = CHR 0x5C"

definition querySelector ::
  "(string \<Rightarrow> js_error + element option) \<Rightarrow> (string \<times> element) list \<Rightarrow> string
     \<Rightarrow> js_error + element option" where
  "querySelector other els sel =
     (case sel of
        [] \<Rightarrow> other sel
      | c # name \<Rightarrow>
          if c \<noteq> CHR ''#'' then other sel
          else if css_ident name then Inr (map_of els name)
          else if \<not> starts_ident name \<and> backslash \<notin> set (take 2 name) then Inl SyntaxError
          else other sel)"

text \<open>
  A click on the anchor at position \<open>k\<close> of the page, after \<open>init\<close>: the anchor's
  listener runs if \<open>init\<close> gave it one, with the host's lookup on this page.
\<close>

definition SmoothScroll_run ::
  "(string \<Rightarrow> js_error + element option) \<Rightarrow> scroll_page \<Rightarrow> nat \<Rightarrow> js_error + click_effect" where
  "SmoothScroll_run other p k =
     (case SmoothScroll_init (hash_anchors (page_anchors p)) of
        Inl e \<Rightarrow> Inl e
      | Inr listeners \<Rightarrow>
          if k \<in> set listeners
          then SmoothScroll_click (querySelector other (page_elements p)) (page_anchors p ! k)
          else Inr no_effect)"


section \<open>ScrollHeader\<close>

text \<open>
  The debounced callback reads \<open>window.scrollY\<close> (a number, here a real) and sets or
  clears \<open>scrolled\<close> on the header's class list.
\<close>

definition scrollThreshold :: real where
  "scrollThreshold = 100"

definition ScrollHeader_tick :: "real \<Rightarrow> classList \<Rightarrow> classList" where
  "ScrollHeader_tick scrollY header =
     (if scrollY > scrollThreshold then cl_add ''scrolled'' header
      else cl_remove ''scrolled'' header)"

datatype window_listener = ScrollListener | LoadListener

definition ScrollHeader_init :: "classList option \<Rightarrow> js_error + window_listener list" where
  "ScrollHeader_init header =
     (if header = None then Inr [] else addEventListener (Some ()) ScrollListener)"


section \<open>ScrollReveal\<close>

text \<open>
  Elements are identified by a number; the store gives each its class list. An
  observer entry names its target and says whether it intersects.
\<close>

type_synonym elem = nat

type_synonym store = "elem \<Rightarrow> classList"

record 't entry =
  target :: 't
  isIntersecting :: bool

definition reveal_entry_step :: "store \<Rightarrow> elem entry \<Rightarrow> store" where
  "reveal_entry_step st e =
     (if isIntersecting e then st(target e := cl_add ''visible'' (st (target e))) else st)"

definition ScrollReveal_callback :: "elem entry list \<Rightarrow> store \<Rightarrow> store" where
  "ScrollReveal_callback entries st = foldl reveal_entry_step st entries"

text \<open>
  \<open>init\<close> returns the elements under observation: none when \<open>$$('.fade-in')\<close> is
  empty; otherwise it constructs the observer first. \<open>io\<close> says whether the host
  defines \<open>IntersectionObserver\<close>.
\<close>

definition ScrollReveal_init :: "bool \<Rightarrow> elem list \<Rightarrow> js_error + elem list" where
  "ScrollReveal_init io elements =
     (if length elements = 0 then Inr []
      else (case new_IntersectionObserver io of Inl e \<Rightarrow> Inl e | Inr _ \<Rightarrow> Inr elements))"

text \<open>
  What can happen to the store afterwards: an observer callback, a scroll event (its
  one listener in the script is the header's debounced callback, which runs with the
  offset then current on the header, if there is one), a resize event (no listener).
\<close>

datatype page_event = ObserverCallback "elem entry list" | ScrollEvent real | ResizeEvent

fun page_step :: "elem option \<Rightarrow> store \<Rightarrow> page_event \<Rightarrow> store" where
  "page_step header st (ObserverCallback entries) = ScrollReveal_callback entries st"
| "page_step header st (ScrollEvent scrollY) =
     (case header of
        None \<Rightarrow> st
      | Some h \<Rightarrow> st(h := ScrollHeader_tick scrollY (st h)))"
| "page_step header st ResizeEvent = st"

definition visible :: "store \<Rightarrow> elem \<Rightarrow> bool" where
  "visible st e = cl_contains ''visible'' (st e)"

section \<open>TypingEffect\<close>

text \<open>
  The widget's fields, with the element's \<open>textContent\<close>. \<open>charIndex\<close> is a JavaScript
  number that the code increments and decrements: an integer.
\<close>

record typing =
  textContent :: string
  words :: "string list"
  typingSpeed :: nat
  deletingSpeed :: nat
  delayBetweenWords :: nat
  wordIndex :: nat
  charIndex :: int
  isDeleting :: bool

text \<open>\<open>s.substring(0, k)\<close>: a negative \<open>k\<close> counts as 0, one past the end as the length.\<close>

definition substring0 :: "string \<Rightarrow> int \<Rightarrow> string" where
  "substring0 s k = take (nat k) s"

definition TypingEffect_new :: "string \<Rightarrow> string list \<Rightarrow> nat \<Rightarrow> nat \<Rightarrow> nat \<Rightarrow> typing" where
  "TypingEffect_new el ws ts ds dw =
     \<lparr>textContent = el, words = ws, typingSpeed = ts, deletingSpeed = ds,
      delayBetweenWords = dw, wordIndex = 0, charIndex = 0, isDeleting = False\<rparr>"

text \<open>
  One run of \<open>type()\<close>: the new state and the delay handed to \<open>setTimeout\<close>.
  \<open>this.words[this.wordIndex]\<close> out of range is \<open>undefined\<close>, and \<open>.substring\<close> on it
  throws.
\<close>

text \<open>
  \<^verbatim>\<open>
  const currentWord = this.words[this.wordIndex];
  if (this.isDeleting) {
      this.element.textContent = currentWord.substring(0, this.charIndex - 1);
      this.charIndex--;
  } else {
      this.element.textContent = currentWord.substring(0, this.charIndex + 1);
      this.charIndex++;
  }
  let typeSpeed = this.isDeleting ? this.deletingSpeed : this.typingSpeed;
  if (!this.isDeleting && this.charIndex === currentWord.length) {
      typeSpeed = this.delayBetweenWords;
      this.isDeleting = true;
  } else if (this.isDeleting && this.charIndex === 0) {
      this.isDeleting = false;
      this.wordIndex = (this.wordIndex + 1) % this.words.length;
      typeSpeed = 500;
  }
  setTimeout(() => this.type(), typeSpeed);
  \<close>
\<close>

definition type_step :: "typing \<Rightarrow> js_error + typing \<times> nat" where
  "type_step st =
     (if wordIndex st < length (words st) then
        (let currentWord = words st ! wordIndex st;
             st1 = (if isDeleting st
                    then st\<lparr>textContent := substring0 currentWord (charIndex st - 1),
                            charIndex := charIndex st - 1\<rparr>
                    else st\<lparr>textContent := substring0 currentWord (charIndex st + 1),
                            charIndex := charIndex st + 1\<rparr>);
             typeSpeed = (if isDeleting st1 then deletingSpeed st1 else typingSpeed st1)
         in if \<not> isDeleting st1 \<and> charIndex st1 = int (length currentWord)
            then Inr (st1\<lparr>isDeleting := True\<rparr>, delayBetweenWords st1)
            else if isDeleting st1 \<and> charIndex st1 = 0
            then Inr (st1\<lparr>isDeleting := False,
                          wordIndex := (wordIndex st1 + 1) mod length (words st1)\<rparr>, 500)
            else Inr (st1, typeSpeed))
      else Inl TypeError)"

fun type_steps :: "nat \<Rightarrow> typing \<Rightarrow> js_error + typing" where
  "type_steps 0 st = Inr st"
| "type_steps (Suc n) st =
     (case type_step st of Inl e \<Rightarrow> Inl e | Inr (st', _) \<Rightarrow> type_steps n st')"

text \<open>\<open>init\<close>: nothing without the element, else the first \<open>type()\<close>.\<close>

definition TypingEffect_init ::
  "string option \<Rightarrow> string list \<Rightarrow> nat \<Rightarrow> nat \<Rightarrow> nat \<Rightarrow> js_error + (typing \<times> nat) option" where
  "TypingEffect_init element ws ts ds dw =
     (case element of
        None \<Rightarrow> Inr None
      | Some el \<Rightarrow>
          (case type_step (TypingEffect_new el ws ts ds dw) of
             Inl e \<Rightarrow> Inl e
           | Inr r \<Rightarrow> Inr (Some r)))"


section \<open>ActiveSectionHighlighter\<close>

text \<open>
  A navigation link has its \<open>href\<close> attribute and its class list; a section has its
  \<open>id\<close>. \<open>this.navLinks\<close> is a list, in document order.
\<close>

record nav_link =
  href :: string
  classes :: classList

record section_el =
  id_attr :: string

text \<open>
  \<^verbatim>\<open>
  setActiveLink(id) {
      this.navLinks.forEach(link => {
          link.classList.remove('active');
          if (link.getAttribute('href') === `#${id}`) {
              link.classList.add('active');
          }
      });
  }
  \<close>
\<close>

definition setActiveLink :: "string \<Rightarrow> nav_link list \<Rightarrow> nav_link list" where
  "setActiveLink i navLinks =
     map (\<lambda>link.
            let l1 = link\<lparr>classes := cl_remove ''active'' (classes link)\<rparr>
            in if href l1 = ''#'' @ i
               then l1\<lparr>classes := cl_add ''active'' (classes l1)\<rparr>
               else l1)
         navLinks"

definition highlight_entry_step :: "nav_link list \<Rightarrow> section_el entry \<Rightarrow> nav_link list" where
  "highlight_entry_step navLinks e =
     (if isIntersecting e then setActiveLink (id_attr (target e)) navLinks else navLinks)"

definition ActiveSectionHighlighter_callback ::
  "section_el entry list \<Rightarrow> nav_link list \<Rightarrow> nav_link list" where
  "ActiveSectionHighlighter_callback entries navLinks =
     foldl highlight_entry_step navLinks entries"

definition ActiveSectionHighlighter_run ::
  "section_el entry list list \<Rightarrow> nav_link list \<Rightarrow> nav_link list" where
  "ActiveSectionHighlighter_run callbacks navLinks =
     foldl (\<lambda>ls entries. ActiveSectionHighlighter_callback entries ls) navLinks callbacks"

text \<open>
  \<open>init\<close> returns the sections under observation: none when there are no sections or
  no links; otherwise it constructs the observer first.
\<close>

definition ActiveSectionHighlighter_init ::
  "bool \<Rightarrow> section_el list \<Rightarrow> nav_link list \<Rightarrow> js_error + section_el list" where
  "ActiveSectionHighlighter_init io sections navLinks =
     (if length sections = 0 \<or> length navLinks = 0 then Inr []
      else (case new_IntersectionObserver io of Inl e \<Rightarrow> Inl e | Inr _ \<Rightarrow> Inr sections))"

definition is_active :: "nav_link \<Rightarrow> bool" where
  "is_active link = cl_contains ''active'' (classes link)"

text \<open>
  The section that intersected last: the last intersecting entry of the callbacks read
  in order, each callback's entries in the callback's own order.
\<close>

definition last_intersecting :: "section_el entry list list \<Rightarrow> string option" where
  "last_intersecting callbacks =
     (case rev (filter isIntersecting (concat callbacks)) of
        [] \<Rightarrow> None
      | e # _ \<Rightarrow> Some (id_attr (target e)))"


section \<open>Preloader\<close>

definition Preloader_init :: "'e option \<Rightarrow> js_error + window_listener list" where
  "Preloader_init preloader =
     (if preloader = None then Inr [] else addEventListener (Some ()) LoadListener)"


section \<open>Module exports\<close>

text \<open>
  The classes the script declares, and the object literal its last statement assigns
  to \<open>module.exports\<close> when \<open>typeof module !== 'undefined' && module.exports\<close>:
  \<open>module\<close> is \<open>None\<close> when undefined, and its \<open>exports\<close> is \<open>None\<close> when falsy.
  \<open>export_on_load\<close> is that last statement alone; \<open>load_script\<close> below is the whole
  script.
\<close>

datatype widget_class =
  MobileMenu | SmoothScroll | ScrollHeader | ScrollReveal | CursorTrail | TypingEffect
  | ActiveSectionHighlighter | PerformanceMonitor | Preloader | App

definition declared_classes :: "widget_class list" where
  "declared_classes =
     [MobileMenu, SmoothScroll, ScrollHeader, ScrollReveal, CursorTrail, TypingEffect,
      ActiveSectionHighlighter, PerformanceMonitor, Preloader, App]"

definition exports_literal :: "(string \<times> widget_class) list" where
  "exports_literal =
     [(''MobileMenu'', MobileMenu), (''SmoothScroll'', SmoothScroll),
      (''ScrollHeader'', ScrollHeader), (''ScrollReveal'', ScrollReveal),
      (''CursorTrail'', CursorTrail), (''TypingEffect'', TypingEffect),
      (''ActiveSectionHighlighter'', ActiveSectionHighlighter)]"

definition export_on_load ::
  "(string \<times> widget_class) list option option \<Rightarrow> (string \<times> widget_class) list option option" where
  "export_on_load module_obj =
     (case module_obj of
        None \<Rightarrow> None
      | Some None \<Rightarrow> Some None
      | Some (Some old) \<Rightarrow> Some (Some exports_literal))"


section \<open>App and the script as a whole\<close>

text \<open>
  The document as the five widgets of \<open>initComponents\<close> query it, with its
  \<open>readyState\<close>; and the host the script is loaded in: its \<open>document\<close> (\<open>None\<close> where
  the global is not defined, as under Node without a DOM), whether it defines
  \<open>IntersectionObserver\<close>, and its \<open>module\<close>.
\<close>

record site =
  readyState :: string
  site_menu :: menu_dom
  site_anchors :: "string option list"
  site_header :: "classList option"
  site_fade_in :: "elem list"
  site_sections :: "section_el list"
  site_navLinks :: "nav_link list"

record runtime =
  document :: "site option"
  intersectionObserver :: bool
  module_var :: "(string \<times> widget_class) list option option"

text \<open>
  \<^verbatim>\<open>
  initComponents() {
      new MobileMenu();
      new SmoothScroll();
      new ScrollHeader();
      new ScrollReveal();
      new ActiveSectionHighlighter();
      console.log(...);
  }
  \<close>
  Each constructor queries its elements and runs its \<open>init\<close>; the first throw ends the
  run.
\<close>

definition initComponents :: "bool \<Rightarrow> site \<Rightarrow> js_error + unit" where
  "initComponents io s =
     (case MobileMenu_init (site_menu s) of Inl e \<Rightarrow> Inl e | Inr _ \<Rightarrow>
      (case SmoothScroll_init (hash_anchors (site_anchors s)) of Inl e \<Rightarrow> Inl e | Inr _ \<Rightarrow>
       (case ScrollHeader_init (site_header s) of Inl e \<Rightarrow> Inl e | Inr _ \<Rightarrow>
        (case ScrollReveal_init io (site_fade_in s) of Inl e \<Rightarrow> Inl e | Inr _ \<Rightarrow>
         (case ActiveSectionHighlighter_init io (site_sections s) (site_navLinks s) of
            Inl e \<Rightarrow> Inl e
          | Inr _ \<Rightarrow> Inr ())))))"

text \<open>
  \<^verbatim>\<open>
  init() {
      if (document.readyState === 'loading') {
          document.addEventListener('DOMContentLoaded', () => this.initComponents());
      } else {
          this.initComponents();
      }
  }
  \<close>
  \<open>new App()\<close> runs \<open>init\<close>: it reads \<open>document\<close>, then either defers the components
  or constructs them at once.
\<close>

datatype app_start = Deferred | Initialised

definition App_init :: "runtime \<Rightarrow> js_error + app_start" where
  "App_init rt =
     (case document rt of
        None \<Rightarrow> Inl ReferenceError
      | Some s \<Rightarrow>
          if readyState s = ''loading'' then Inr Deferred
          else (case initComponents (intersectionObserver rt) s of
                  Inl e \<Rightarrow> Inl e
                | Inr _ \<Rightarrow> Inr Initialised))"

text \<open>
  The script's top level: the declarations, then \<open>new App();\<close>, then the export
  statement. A throw from \<open>new App()\<close> ends the script there, and \<open>module.exports\<close>
  stays what it was. The result is what was thrown, if anything, and \<open>module\<close>
  afterwards.
\<close>

definition load_script ::
  "runtime \<Rightarrow> js_error option \<times> (string \<times> widget_class) list option option" where
  "load_script rt =
     (case App_init rt of
        Inl e \<Rightarrow> (Some e, module_var rt)
      | Inr _ \<Rightarrow> (None, export_on_load (module_var rt)))"

section \<open>Invariants and sample inputs\<close>

text \<open>
  After an invocation at \<open>t\<close> with arguments \<open>a\<close> the wrapper is armed: one timer is
  pending, due at \<open>t + w\<close>, holding \<open>a\<close>, and its handle is in \<open>timeout\<close>.
\<close>

definition armed :: "nat \<Rightarrow> 'a debounced \<Rightarrow> nat \<Rightarrow> 'a \<Rightarrow> bool" where
  "armed w st t a \<longleftrightarrow>
     (\<exists>i. timers st = [\<lparr>tid = i, due = t + w, targs = a\<rparr>] \<and> timeout st = Some i)
     \<and> now st = t \<and> calls st = []"

text \<open>Sample navigation links and observer entries.\<close>

definition about_link :: nav_link where
  "about_link = \<lparr>href = ''#about'', classes = []\<rparr>"

definition home_link :: nav_link where
  "home_link = \<lparr>href = ''#home'', classes = [''active'']\<rparr>"

definition entry_of :: "string \<Rightarrow> bool \<Rightarrow> section_el entry" where
  "entry_of i b = \<lparr>target = \<lparr>id_attr = i\<rparr>, isIntersecting = b\<rparr>"

text \<open>Sample pages: a link to a section whose \<open>id\<close> starts with a digit; two links to nothing.\<close>

definition numbered_page :: scroll_page where
  "numbered_page =
     \<lparr>page_anchors = [Some ''#1abc''], page_elements = [(''1abc'', \<lparr>offsetTop = 640\<rparr>)]\<rparr>"

definition dangling_page :: scroll_page where
  "dangling_page = \<lparr>page_anchors = [Some ''#1abc'', Some ''#!''], page_elements = []\<rparr>"

text \<open>A page with a section \<open>about\<close>, a link to it, a link to nothing and an outside link.\<close>

definition about_site :: scroll_page where
  "about_site =
     \<lparr>page_anchors = [Some ''#about'', Some ''#contact'', Some ''https://example.org/''],
      page_elements = [(''about'', \<lparr>offsetTop = 640\<rparr>)]\<rparr>"

text \<open>Hosts: Node without a DOM, and a bundle in a browser whose document is parsed.\<close>

definition node_runtime :: runtime where
  "node_runtime = \<lparr>document = None, intersectionObserver = False, module_var = Some (Some [])\<rparr>"

definition parsed_site :: site where
  "parsed_site =
     \<lparr>readyState = ''complete'',
      site_menu = \<lparr>toggle = Some [''mobile-menu-toggle''], menu = Some [''nav-links''],
                   menuItems = 2, overflow = []\<rparr>,
      site_anchors = [Some ''#about''],
      site_header = Some [],
      site_fade_in = [0, 1],
      site_sections = [\<lparr>id_attr = ''about''\<rparr>],
      site_navLinks = [\<lparr>href = ''#about'', classes = []\<rparr>]\<rparr>"

definition bundle_runtime :: runtime where
  "bundle_runtime =
     \<lparr>document = Some parsed_site, intersectionObserver = True, module_var = Some (Some [])\<rparr>"

text \<open>A page with the panel but without the toggle control.\<close>

definition bare_page :: menu_dom where
  "bare_page = \<lparr>toggle = None, menu = Some [''nav-links''], menuItems = 3, overflow = []\<rparr>"

text \<open>
  The page after \<open>closeMenu\<close>; \<open>bound\<close> pages are those on which \<open>init\<close> registers
  its listeners, and \<open>listeners_of\<close> is what it registers there.
\<close>

definition closed_of :: "menu_dom \<Rightarrow> menu_dom" where
  "closed_of d =
     d\<lparr>toggle := map_option (cl_remove ''active'') (toggle d),
       menu := map_option (cl_remove ''active'') (menu d),
       overflow := []\<rparr>"

definition bound :: "menu_dom \<Rightarrow> bool" where
  "bound d \<longleftrightarrow> toggle d \<noteq> None \<and> menu d \<noteq> None"

definition listeners_of :: "menu_dom \<Rightarrow> menu_listener list" where
  "listeners_of d = [ToggleClick] @ map ItemClick [0 ..< menuItems d] @ [DocumentClick, DocumentKeydown]"

text \<open>A sample page with two menu links.\<close>

definition sample_page :: menu_dom where
  "sample_page = \<lparr>toggle = Some [''mobile-menu-toggle''], menu = Some [''nav-links''],
                  menuItems = 2, overflow = []\<rparr>"

text \<open>A store in which every element has only its \<open>fade-in\<close> class.\<close>

definition blank_store :: store where
  "blank_store = (\<lambda>_. [''fade-in''])"

text \<open>What holds of every state the typing widget reaches.\<close>

definition typing_inv :: "typing \<Rightarrow> bool" where
  "typing_inv st \<longleftrightarrow>
     wordIndex st < length (words st) \<and> 0 \<le> charIndex st
     \<and> (if isDeleting st then 0 < charIndex st else True)"


section \<open>Properties of debounce\<close>

lemma run_until_idle:
  assumes "\<forall>x \<in> set (timers st). t < due x"
  shows "run_until t st = st\<lparr>now := max (now st) t\<rparr>"
proof -
  have "filter (\<lambda>x. due x \<le> t) (timers st) = []"
    using assms by (auto simp: filter_empty_conv)
  then show ?thesis by simp
qed

lemma invoke_fresh: "armed w (invoke_at w fresh (t, a)) t a"
  by (simp add: invoke_at_def fresh_def executedFunction_def clearTimeout_def
      setTimeout_def armed_def)

lemma invoke_armed:
  assumes "armed w st t a" and "t \<le> t'" and "t' < t + w"
  shows "armed w (invoke_at w st (t', a')) t' a'"
proof -
  from assms(1) obtain i where st:
    "timers st = [\<lparr>tid = i, due = t + w, targs = a\<rparr>]" "timeout st = Some i"
    "now st = t" "calls st = []"
    by (auto simp: armed_def)
  have "run_until t' st = st\<lparr>now := max (now st) t'\<rparr>"
    using st(1) assms(3) by (intro run_until_idle) simp
  then show ?thesis
    using st assms(2)
    by (simp add: invoke_at_def executedFunction_def clearTimeout_def setTimeout_def
        armed_def max_def)
qed

lemma invoke_all_armed:
  assumes "armed w st t a" and "burst w (t # map fst evs)"
  shows "armed w (invoke_all w evs st) (last (t # map fst evs)) (last (a # map snd evs))"
  using assms
proof (induction evs arbitrary: st t a)
  case Nil
  then show ?case by (simp add: invoke_all_def)
next
  case (Cons ev evs)
  obtain t' a' where ev: "ev = (t', a')" by (cases ev)
  from Cons.prems(2) ev have le: "t \<le> t'" "t' < t + w" and rest: "burst w (t' # map fst evs)"
    by simp_all
  have "armed w (invoke_at w st (t', a')) t' a'"
    using Cons.prems(1) le by (rule invoke_armed)
  from Cons.IH [OF this rest] show ?case
    by (simp add: invoke_all_def ev)
qed

lemma burst_armed:
  assumes "evs \<noteq> []" and "burst w (map fst evs)"
  shows "armed w (invoke_all w evs fresh) (fst (last evs)) (snd (last evs))"
proof -
  from assms(1) obtain t a rest where evs: "evs = (t, a) # rest"
    by (cases evs) auto
  have "armed w (invoke_all w rest (invoke_at w fresh (t, a)))
          (last (t # map fst rest)) (last (a # map snd rest))"
    using invoke_fresh assms(2) unfolding evs by (intro invoke_all_armed) simp_all
  moreover have "last (t # map fst rest) = fst (last evs)" "last (a # map snd rest) = snd (last evs)"
    unfolding evs by (simp_all add: last_map)
  ultimately show ?thesis
    by (simp add: invoke_all_def evs)
qed

lemma armed_early:
  assumes "armed w st t a" and "T < t + w"
  shows "calls (run_until T st) = []"
proof -
  from assms(1) obtain i where st:
    "timers st = [\<lparr>tid = i, due = t + w, targs = a\<rparr>]" "calls st = []"
    by (auto simp: armed_def)
  have "run_until T st = st\<lparr>now := max (now st) T\<rparr>"
    using st(1) assms(2) by (intro run_until_idle) simp
  then show ?thesis using st(2) by simp
qed

lemma armed_fires:
  assumes "armed w st t a" and "t + w \<le> T"
  shows "calls (run_until T st) = [(t + w, a)]"
proof -
  from assms(1) obtain i where st:
    "timers st = [\<lparr>tid = i, due = t + w, targs = a\<rparr>]" "timeout st = Some i"
    "now st = t" "calls st = []"
    by (auto simp: armed_def)
  let ?x = "\<lparr>tid = i, due = t + w, targs = a\<rparr>"
  have sel: "earliest (filter (\<lambda>x. due x \<le> T) (timers st)) = Some ?x"
    using st(1) assms(2) by simp
  have fired: "fire ?x st = st\<lparr>now := t + w, timers := [], calls := [(t + w, a)]\<rparr>"
    using st by (simp add: fire_def later_def clearTimeout_def)
  have "run_until T st = run_until T (fire ?x st)"
    using sel by (subst run_until.simps) simp
  also have "\<dots> = (fire ?x st)\<lparr>now := max (now (fire ?x st)) T\<rparr>"
    by (intro run_until_idle) (simp add: fired)
  finally show ?thesis by (simp add: fired)
qed

text \<open>
  C1. For every wait \<open>w\<close> and every burst of \<open>n \<ge> 1\<close> invocations of the wrapper
  (each less than \<open>w\<close> after the one before), the callback has run exactly once by any
  instant \<open>T\<close> from \<open>w\<close> after the last invocation on, at that instant \<open>last + w\<close> and
  with the last invocation's arguments, and not at all before; after the burst one
  timer is pending, due \<open>w\<close> after the last invocation, so every invocation has reset it.
\<close>

theorem debounce_burst_once:
  assumes "evs \<noteq> []" and "burst w (map fst evs)"
  shows "calls (run_until T (invoke_all w evs fresh)) =
           (if fst (last evs) + w \<le> T then [(fst (last evs) + w, snd (last evs))] else [])
         \<and> map due (timers (invoke_all w evs fresh)) = [fst (last evs) + w]"
proof -
  have a: "armed w (invoke_all w evs fresh) (fst (last evs)) (snd (last evs))"
    using assms by (rule burst_armed)
  have "map due (timers (invoke_all w evs fresh)) = [fst (last evs) + w]"
    using a by (auto simp: armed_def)
  moreover have "calls (run_until T (invoke_all w evs fresh)) =
      (if fst (last evs) + w \<le> T then [(fst (last evs) + w, snd (last evs))] else [])"
    using armed_fires [OF a] armed_early [OF a] by (cases "fst (last evs) + w \<le> T") simp_all
  ultimately show ?thesis by simp
qed

theorem debounce_burst_once_witness:
  "calls (run_until 100 (invoke_all 10 [(0, ''a''), (5, ''b''), (14, ''c'')] fresh)) = [(24, ''c'')]
   \<and> calls (run_until 23 (invoke_all 10 [(0, ''a''), (5, ''b''), (14, ''c'')] fresh)) = []"
  using debounce_burst_once [of "[(0, ''a''), (5, ''b''), (14, ''c'')]" 10 100]
    debounce_burst_once [of "[(0, ''a''), (5, ''b''), (14, ''c'')]" 10 23]
  by simp

text \<open>
  The bound is strict: an invocation exactly \<open>w\<close> after the previous one finds that one's
  timer due, and the callback runs for both.
\<close>

lemma debounce_gap_of_wait:
  "calls (run_until 100 (invoke_all 10 [(0, ''a''), (10, ''b'')] fresh)) = [(10, ''a''), (20, ''b'')]"
  by (simp add: invoke_all_def invoke_at_def fresh_def executedFunction_def clearTimeout_def
      setTimeout_def fire_def later_def)

section \<open>Properties of the class list\<close>

lemma cl_contains_add [simp]: "cl_contains c (cl_add c' cs) \<longleftrightarrow> c = c' \<or> cl_contains c cs"
  by (auto simp: cl_contains_def cl_add_def)

lemma cl_contains_remove [simp]: "cl_contains c (cl_remove c' cs) \<longleftrightarrow> c \<noteq> c' \<and> cl_contains c cs"
  by (auto simp: cl_contains_def cl_remove_def)

lemma cl_contains_toggle [simp]:
  "cl_contains c (cl_toggle c' cs) \<longleftrightarrow> (if c = c' then \<not> cl_contains c cs else cl_contains c cs)"
  by (auto simp: cl_contains_def cl_toggle_def)

lemma cl_add_idem: "cl_add c (cl_add c cs) = cl_add c cs"
  by (simp add: cl_add_def)

lemma cl_remove_idem: "cl_remove c (cl_remove c cs) = cl_remove c cs"
  by (simp add: cl_remove_def)


section \<open>Properties of ActiveSectionHighlighter\<close>

lemma setActiveLink_active:
  "map is_active (setActiveLink i navLinks) = map (\<lambda>link. href link = ''#'' @ i) navLinks"
  by (simp add: setActiveLink_def is_active_def Let_def)

lemma setActiveLink_href: "map href (setActiveLink i navLinks) = map href navLinks"
  by (simp add: setActiveLink_def Let_def)

text \<open>
  C10. For every identifier, after \<open>setActiveLink(id)\<close> a navigation link is marked
  active if and only if its \<open>href\<close> is \<open>#\<close> followed by the identifier, whatever the
  marking before (the links and their \<open>href\<close>s are as before, link by link); so each
  of several links that share that \<open>href\<close> is marked by the one call.
\<close>

theorem setActiveLink_postcondition:
  "map is_active (setActiveLink i navLinks) = map (\<lambda>link. href link = ''#'' @ i) navLinks
   \<and> map href (setActiveLink i navLinks) = map href navLinks
   \<and> length (filter is_active (setActiveLink i navLinks))
       = length (filter (\<lambda>link. href link = ''#'' @ i) navLinks)"
proof -
  have "length (filter is_active (setActiveLink i navLinks))
      = length (filter id (map is_active (setActiveLink i navLinks)))"
    by (simp add: filter_map comp_def)
  also have "\<dots> = length (filter id (map (\<lambda>link. href link = ''#'' @ i) navLinks))"
    by (simp only: setActiveLink_active)
  also have "\<dots> = length (filter (\<lambda>link. href link = ''#'' @ i) navLinks)"
    by (simp add: filter_map comp_def)
  finally show ?thesis
    using setActiveLink_active setActiveLink_href by blast
qed

lemma distinct_filter_le_one:
  "distinct (map f xs) \<Longrightarrow> length (filter (\<lambda>x. f x = y) xs) \<le> Suc 0"
proof (induction xs)
  case Nil
  then show ?case by simp
next
  case (Cons x xs)
  show ?case
  proof (cases "f x = y")
    case True
    with Cons.prems have "\<forall>z \<in> set xs. f z \<noteq> y" by (auto simp: image_iff)
    then have "filter (\<lambda>x. f x = y) xs = []" by (simp add: filter_empty_conv)
    with True show ?thesis by simp
  next
    case False
    with Cons show ?thesis by simp
  qed
qed

lemma count_active:
  "length (filter is_active ls) = length (filter id (map is_active ls))"
  by (simp add: filter_map comp_def)

lemma highlight_entry_step_href: "map href (highlight_entry_step ls e) = map href ls"
  by (simp add: highlight_entry_step_def setActiveLink_href)

lemma highlight_fold_href: "map href (foldl highlight_entry_step ls es) = map href ls"
  by (induction es arbitrary: ls) (simp_all add: highlight_entry_step_href)

lemma run_as_fold:
  "ActiveSectionHighlighter_run cbs ls = foldl highlight_entry_step ls (concat cbs)"
  unfolding ActiveSectionHighlighter_run_def ActiveSectionHighlighter_callback_def
  by (induction cbs arbitrary: ls) simp_all

lemma highlight_fold_last:
  "(case rev (filter isIntersecting es) of
      [] \<Rightarrow> foldl highlight_entry_step ls es = ls
    | e # _ \<Rightarrow> map is_active (foldl highlight_entry_step ls es)
               = map (\<lambda>link. href link = ''#'' @ id_attr (target e)) ls)"
proof (induction es rule: rev_induct)
  case Nil
  then show ?case by simp
next
  case (snoc e es)
  show ?case
  proof (cases "isIntersecting e")
    case True
    have "map is_active (setActiveLink (id_attr (target e)) (foldl highlight_entry_step ls es))
        = map (\<lambda>h. h = ''#'' @ id_attr (target e)) (map href (foldl highlight_entry_step ls es))"
      by (simp add: setActiveLink_active comp_def)
    also have "\<dots> = map (\<lambda>link. href link = ''#'' @ id_attr (target e)) ls"
      by (simp add: highlight_fold_href comp_def)
    finally show ?thesis using True by (simp add: highlight_entry_step_def)
  next
    case False
    with snoc show ?thesis by (simp add: highlight_entry_step_def split: list.splits)
  qed
qed

text \<open>
  C3 (as amended). After any sequence of observer callbacks the links and their
  \<open>href\<close>s are as before. If no entry of the sequence intersected, the markings are
  untouched. Otherwise a navigation link is marked active if and only if its \<open>href\<close>
  is \<open>#\<close> followed by the identifier of the section that intersected last, where of
  several intersecting entries of one callback the last in the callback's order counts;
  so at most one link is marked when the links' \<open>href\<close>s are pairwise distinct.
\<close>

theorem highlighter_last_wins:
  "map href (ActiveSectionHighlighter_run callbacks navLinks) = map href navLinks
   \<and> (case last_intersecting callbacks of
        None \<Rightarrow> ActiveSectionHighlighter_run callbacks navLinks = navLinks
      | Some i \<Rightarrow>
          map is_active (ActiveSectionHighlighter_run callbacks navLinks)
            = map (\<lambda>link. href link = ''#'' @ i) navLinks
          \<and> (distinct (map href navLinks) \<longrightarrow>
               length (filter is_active (ActiveSectionHighlighter_run callbacks navLinks)) \<le> 1))"
proof -
  let ?run = "ActiveSectionHighlighter_run callbacks navLinks"
  have href: "map href ?run = map href navLinks"
    by (simp add: run_as_fold highlight_fold_href)
  have rest: "case last_intersecting callbacks of
        None \<Rightarrow> ?run = navLinks
      | Some i \<Rightarrow> map is_active ?run = map (\<lambda>link. href link = ''#'' @ i) navLinks
          \<and> (distinct (map href navLinks) \<longrightarrow> length (filter is_active ?run) \<le> 1)"
  proof (cases "rev (filter isIntersecting (concat callbacks))")
    case Nil
    then show ?thesis
      using highlight_fold_last [where es = "concat callbacks" and ls = navLinks]
      by (simp add: last_intersecting_def run_as_fold)
  next
    case (Cons e es)
    then have act: "map is_active ?run = map (\<lambda>link. href link = ''#'' @ id_attr (target e)) navLinks"
      using highlight_fold_last [where es = "concat callbacks" and ls = navLinks]
      by (simp add: run_as_fold)
    have "length (filter is_active ?run) \<le> 1" if "distinct (map href navLinks)"
    proof -
      have "length (filter is_active ?run)
          = length (filter (\<lambda>link. href link = ''#'' @ id_attr (target e)) navLinks)"
        by (simp add: count_active act filter_map comp_def)
      then show ?thesis
        using distinct_filter_le_one [OF that, of "''#'' @ id_attr (target e)"] by simp
    qed
    with act Cons show ?thesis
      by (simp add: last_intersecting_def)
  qed
  from href rest show ?thesis by simp
qed

theorem highlighter_last_wins_witness:
  "map is_active (ActiveSectionHighlighter_run
       [[entry_of ''home'' True, entry_of ''about'' True], [entry_of ''home'' False]]
       [home_link, about_link]) = [False, True]
   \<and> distinct (map href [home_link, about_link])
   \<and> length (filter is_active (ActiveSectionHighlighter_run
       [[entry_of ''home'' True, entry_of ''about'' True], [entry_of ''home'' False]]
       [home_link, about_link])) \<le> 1"
  using highlighter_last_wins [of "[[entry_of ''home'' True, entry_of ''about'' True], [entry_of ''home'' False]]"
      "[home_link, about_link]"]
  by (simp add: last_intersecting_def entry_of_def home_link_def about_link_def)

text \<open>
  C3 as stated fails: two navigation links with the same \<open>href\<close> are both marked by
  the one intersection.
\<close>

theorem highlighter_shared_href_counterexample:
  "\<not> length (filter is_active
        (ActiveSectionHighlighter_run [[entry_of ''about'' True]] [about_link, about_link])) \<le> 1"
  by (simp add: ActiveSectionHighlighter_run_def ActiveSectionHighlighter_callback_def
      highlight_entry_step_def setActiveLink_def is_active_def entry_of_def about_link_def
      cl_add_def cl_remove_def cl_contains_def)

section \<open>Properties of ScrollHeader\<close>

lemma removeAll_cl_add: "removeAll c (cl_add c cs) = removeAll c cs"
  by (simp add: cl_add_def)

text \<open>
  C4. For every tick of the debounced callback that reads the offset \<open>s\<close>, the header
  carries \<open>scrolled\<close> afterwards if and only if \<open>s > 100\<close>. The tick is a function of
  \<open>s\<close> and the class list alone: running it again with the same \<open>s\<close> changes nothing,
  what earlier ticks did does not show in the classes it leaves, and no other class is
  touched.
\<close>

theorem scroll_header_tick:
  "cl_contains ''scrolled'' (ScrollHeader_tick s header) = (s > 100)
   \<and> ScrollHeader_tick s (ScrollHeader_tick s header) = ScrollHeader_tick s header
   \<and> set (ScrollHeader_tick s (ScrollHeader_tick s' header)) = set (ScrollHeader_tick s header)
   \<and> removeAll ''scrolled'' (ScrollHeader_tick s header) = removeAll ''scrolled'' header"
proof -
  have 1: "cl_contains ''scrolled'' (ScrollHeader_tick s header) = (s > 100)"
    by (simp add: ScrollHeader_tick_def scrollThreshold_def)
  have 2: "ScrollHeader_tick s (ScrollHeader_tick s header) = ScrollHeader_tick s header"
    by (simp add: ScrollHeader_tick_def cl_add_idem cl_remove_idem)
  have 3: "set (ScrollHeader_tick s (ScrollHeader_tick s' header)) = set (ScrollHeader_tick s header)"
    by (auto simp: ScrollHeader_tick_def cl_add_def cl_remove_def)
  have 4: "removeAll ''scrolled'' (ScrollHeader_tick s header) = removeAll ''scrolled'' header"
    by (simp add: ScrollHeader_tick_def removeAll_cl_add cl_remove_def)
  from 1 2 3 4 show ?thesis by simp
qed

text \<open>The specification's scenario: offset 150, then offset 50.\<close>

lemma scroll_header_scenario:
  "ScrollHeader_tick 150 [''site-header''] = [''site-header'', ''scrolled'']
   \<and> ScrollHeader_tick 50 (ScrollHeader_tick 150 [''site-header'']) = [''site-header'']"
  by (simp add: ScrollHeader_tick_def scrollThreshold_def cl_add_def cl_remove_def)


section \<open>Properties of SmoothScroll\<close>

lemma SmoothScroll_init_total: "SmoothScroll_init anchors = Inr anchors"
proof -
  have "fold (\<lambda>a acc. case acc of Inl e \<Rightarrow> Inl e
                    | Inr ls \<Rightarrow> (case addEventListener (Some a) a of Inl e \<Rightarrow> Inl e
                                 | Inr l \<Rightarrow> Inr (ls @ l))) anchors (Inr acc0)
        = (Inr (acc0 @ anchors) :: js_error + 'a list)" for acc0
    by (induction anchors arbitrary: acc0) (simp_all add: addEventListener_def)
  from this [of "[]"] show ?thesis by (simp add: SmoothScroll_init_def)
qed

lemma hash_anchors_mem:
  "k \<in> set (hash_anchors hrefs) \<longleftrightarrow>
     k < length hrefs \<and> (case hrefs ! k of None \<Rightarrow> False | Some h \<Rightarrow> take 1 h = ''#'')"
  by (auto simp: hash_anchors_def)

text \<open>A click on a hash anchor runs the handler with the host's lookup on the page.\<close>

lemma SmoothScroll_run_hash:
  assumes "k < length (page_anchors p)" and "page_anchors p ! k = Some (''#'' @ frag)"
  shows "SmoothScroll_run other p k =
           SmoothScroll_click (querySelector other (page_elements p)) (Some (''#'' @ frag))"
  using assms by (simp add: SmoothScroll_run_def SmoothScroll_init_total hash_anchors_mem)

text \<open>What the handler does with each outcome of the lookup.\<close>

lemma click_lookup_found:
  assumes "frag \<noteq> []" and "qs (''#'' @ frag) = Inr (Some el)"
  shows "SmoothScroll_click qs (Some (''#'' @ frag)) =
           Inr \<lparr>defaultPrevented = True,
                scrollTo = Some \<lparr>scroll_top = offsetTop el - 100, behavior = ''smooth''\<rparr>\<rparr>"
  using assms by (simp add: SmoothScroll_click_def)

lemma click_lookup_null:
  assumes "qs h = Inr None"
  shows "SmoothScroll_click qs (Some h) = Inr no_effect"
  using assms by (simp add: SmoothScroll_click_def)

lemma click_lookup_throws:
  assumes "h \<noteq> []" and "h \<noteq> ''#''" and "qs h = Inl e"
  shows "SmoothScroll_click qs (Some h) = Inl e"
  using assms by (simp add: SmoothScroll_click_def)

lemma css_ident_nonempty: "css_ident frag \<Longrightarrow> frag \<noteq> []"
  by (auto simp: css_ident_def)

text \<open>
  Where the fragment is an identifier the handler does what is asked of it: with an
  element of that \<open>id\<close> it cancels the default and scrolls to \<open>offsetTop - 100\<close>, and
  without one it does nothing.
\<close>

lemma smooth_scroll_identifier_target:
  assumes "k < length (page_anchors p)" and "page_anchors p ! k = Some (''#'' @ frag)"
    and "css_ident frag" and "map_of (page_elements p) frag = Some el"
  shows "SmoothScroll_run other p k =
           Inr \<lparr>defaultPrevented = True,
                scrollTo = Some \<lparr>scroll_top = offsetTop el - 100, behavior = ''smooth''\<rparr>\<rparr>"
proof -
  have "querySelector other (page_elements p) (''#'' @ frag) = Inr (Some el)"
    using assms(3,4) by (simp add: querySelector_def)
  from click_lookup_found [where qs = "querySelector other (page_elements p)",
      OF css_ident_nonempty [OF assms(3)] this]
  show ?thesis by (simp add: SmoothScroll_run_hash [OF assms(1,2)])
qed

lemma smooth_scroll_identifier_no_target:
  assumes "k < length (page_anchors p)" and "page_anchors p ! k = Some (''#'' @ frag)"
    and "css_ident frag" and "map_of (page_elements p) frag = None"
  shows "SmoothScroll_run other p k = Inr no_effect"
proof -
  have "querySelector other (page_elements p) (''#'' @ frag) = Inr None"
    using assms(3,4) by (simp add: querySelector_def)
  from click_lookup_null [where qs = "querySelector other (page_elements p)", OF this]
  show ?thesis by (simp add: SmoothScroll_run_hash [OF assms(1,2)])
qed

text \<open>
  Where the fragment cannot start an identifier the lookup throws, whether or not an
  element has that \<open>id\<close>, and the handler throws with it: only the bare \<open>#\<close> is
  guarded.
\<close>

lemma smooth_scroll_not_a_selector:
  assumes "k < length (page_anchors p)" and "page_anchors p ! k = Some (''#'' @ frag)"
    and "frag \<noteq> []" and "\<not> starts_ident frag" and "backslash \<notin> set (take 2 frag)"
  shows "SmoothScroll_run other p k = Inl SyntaxError"
proof -
  have "\<not> css_ident frag"
    using assms(4) by (simp add: css_ident_def)
  then have "querySelector other (page_elements p) (''#'' @ frag) = Inl SyntaxError"
    using assms(4,5) by (simp add: querySelector_def)
  moreover have "''#'' @ frag \<noteq> []" "''#'' @ frag \<noteq> ''#''"
    using assms(3) by simp_all
  ultimately have "SmoothScroll_click (querySelector other (page_elements p)) (Some (''#'' @ frag))
      = Inl SyntaxError"
    by (intro click_lookup_throws)
  then show ?thesis by (simp add: SmoothScroll_run_hash [OF assms(1,2)])
qed

lemma smooth_scroll_examples:
  "SmoothScroll_run other about_site 0 =
     Inr \<lparr>defaultPrevented = True,
          scrollTo = Some \<lparr>scroll_top = 540, behavior = ''smooth''\<rparr>\<rparr>
   \<and> SmoothScroll_run other about_site 1 = Inr no_effect
   \<and> SmoothScroll_run other about_site 2 = Inr no_effect"
  by (simp add: SmoothScroll_run_def SmoothScroll_init_total hash_anchors_mem about_site_def
      SmoothScroll_click_def querySelector_def css_ident_def name_char_def name_start_char_def
      is_letter_def is_digit_def nth_Cons')

text \<open>
  C5 fails on the code. On a page whose section has the \<open>id\<close> \<open>1abc\<close>, the element
  matching the hash of the link \<open>#1abc\<close> exists, yet the click on the link ends in the
  SyntaxError of the lookup, before \<open>preventDefault\<close> and without a scroll request,
  whatever the host does with other selectors.
\<close>

theorem smooth_scroll_numeric_id_throws:
  "map_of (page_elements numbered_page) ''1abc'' = Some \<lparr>offsetTop = 640\<rparr>
   \<and> page_anchors numbered_page ! 0 = Some ''#1abc''
   \<and> SmoothScroll_run other numbered_page 0 = Inl SyntaxError"
proof -
  have "SmoothScroll_run other numbered_page 0 = Inl SyntaxError"
    by (rule smooth_scroll_not_a_selector [where frag = "''1abc''"])
      (simp_all add: numbered_page_def name_start_char_def is_letter_def backslash_def)
  then show ?thesis by (simp add: numbered_page_def)
qed

text \<open>
  C6 fails on the code. On a page with no element that the links \<open>#1abc\<close> and \<open>#!\<close>
  could match, a click on either link throws a SyntaxError instead of doing nothing.
\<close>

theorem smooth_scroll_dangling_link_throws:
  "map_of (page_elements dangling_page) ''1abc'' = None
   \<and> map_of (page_elements dangling_page) ''!'' = None
   \<and> SmoothScroll_run other dangling_page 0 = Inl SyntaxError
   \<and> SmoothScroll_run other dangling_page 1 = Inl SyntaxError"
proof -
  have "SmoothScroll_run other dangling_page 0 = Inl SyntaxError"
    by (rule smooth_scroll_not_a_selector [where frag = "''1abc''"])
      (simp_all add: dangling_page_def name_start_char_def is_letter_def backslash_def)
  moreover have "SmoothScroll_run other dangling_page 1 = Inl SyntaxError"
    by (rule smooth_scroll_not_a_selector [where frag = "''!''"])
      (simp_all add: dangling_page_def name_start_char_def is_letter_def backslash_def)
  ultimately show ?thesis by (simp add: dangling_page_def)
qed


section \<open>Properties of the guards of \<open>init\<close>\<close>

lemma MobileMenu_init_total: "MobileMenu_init d \<noteq> Inl e"
  by (cases "toggle d") (simp_all add: MobileMenu_init_def addEventListener_def)

lemma ScrollHeader_init_total: "ScrollHeader_init header \<noteq> Inl e"
  by (simp add: ScrollHeader_init_def addEventListener_def)

text \<open>
  A widget whose elements are missing returns from \<open>init\<close> without an error and
  without registering anything: MobileMenu without its toggle or its panel (events then
  leave the page as it is), ScrollHeader without a header, ScrollReveal and
  SmoothScroll with nothing to attach to, ActiveSectionHighlighter without sections or
  without links (neither constructs its observer then), TypingEffect and Preloader
  without their element.
\<close>

lemma missing_elements_guarded:
  "SmoothScroll_click qs None = Inr no_effect
   \<and> SmoothScroll_init ([] :: unit list) = Inr []
   \<and> (toggle d = None \<or> menu d = None \<longrightarrow>
        MobileMenu_init d = Inr [] \<and> MobileMenu_run d evs = Inr d)
   \<and> ScrollHeader_init None = Inr []
   \<and> ScrollReveal_init io [] = Inr []
   \<and> (sections = [] \<or> navLinks = [] \<longrightarrow>
        ActiveSectionHighlighter_init io sections navLinks = Inr [])
   \<and> TypingEffect_init None ws ts ds dw = Inr None
   \<and> Preloader_init (None :: unit option) = Inr []
   \<and> MobileMenu_init d \<noteq> Inl e"
proof -
  have menu: "MobileMenu_init d = Inr [] \<and> MobileMenu_run d evs = Inr d"
    if "toggle d = None \<or> menu d = None"
  proof -
    have "MobileMenu_init d = Inr []"
      using that by (auto simp: MobileMenu_init_def)
    moreover have "dispatch_all [] evs d = Inr d"
      by (induction evs) simp_all
    ultimately show ?thesis by (simp add: MobileMenu_run_def)
  qed
  have hl: "ActiveSectionHighlighter_init io sections navLinks = Inr []"
    if "sections = [] \<or> navLinks = []"
    using that by (auto simp: ActiveSectionHighlighter_init_def)
  show ?thesis
    using menu hl MobileMenu_init_total [of d e]
    by (simp add: SmoothScroll_click_def SmoothScroll_init_def ScrollHeader_init_def
        ScrollReveal_init_def TypingEffect_init_def Preloader_init_def)
qed

lemma missing_elements_example:
  "MobileMenu_init bare_page = Inr []
   \<and> MobileMenu_run bare_page [Click True False None, Keydown ''Escape''] = Inr bare_page"
  using missing_elements_guarded [where d = bare_page
      and evs = "[Click True False None, Keydown ''Escape'']"]
  by (simp add: bare_page_def)


section \<open>Properties of MobileMenu\<close>

lemma closeMenu_bound: "bound d \<Longrightarrow> closeMenu d = Inr (closed_of d)"
  by (auto simp: bound_def closeMenu_def closed_of_def)

lemma closed_of_props [simp]:
  "bound d \<Longrightarrow> bound (closed_of d)"
  "menuItems (closed_of d) = menuItems d"
  "\<not> menu_open (closed_of d)"
  "\<not> scroll_locked (closed_of d)"
  by (auto simp: bound_def closed_of_def menu_open_def scroll_locked_def split: option.splits)

lemma closed_of_idem: "closed_of (closed_of d) = closed_of d"
  by (cases "toggle d"; cases "menu d") (simp_all add: closed_of_def cl_remove_idem)

lemma toggleMenu_bound:
  assumes "bound d"
  shows "\<exists>d'. toggleMenu d = Inr d' \<and> bound d' \<and> menuItems d' = menuItems d
          \<and> menu_open d' = (\<not> menu_open d) \<and> scroll_locked d' = menu_open d'"
  using assms
  by (auto simp: bound_def toggleMenu_def menu_open_def scroll_locked_def Let_def)

lemma dispatch_append:
  "dispatch (xs @ ys) ev d =
     (case dispatch xs ev d of Inl e \<Rightarrow> Inl e | Inr d' \<Rightarrow> dispatch ys ev d')"
  by (induction xs arbitrary: d) (simp_all split: sum.splits)

lemma items_link_click:
  assumes "bound d"
  shows "dispatch (map ItemClick ks) (Click t m (Some k)) d =
           Inr (if k \<in> set ks then closed_of d else d)"
  using assms
proof (induction ks arbitrary: d)
  case Nil
  then show ?case by simp
next
  case (Cons j ks)
  show ?case
  proof (cases "j = k")
    case True
    have "dispatch (map ItemClick ks) (Click t m (Some k)) (closed_of d) =
            Inr (if k \<in> set ks then closed_of (closed_of d) else closed_of d)"
      using Cons.prems by (intro Cons.IH) simp
    with True Cons.prems show ?thesis
      by (simp add: closeMenu_bound closed_of_idem)
  next
    case False
    with Cons show ?thesis by auto
  qed
qed

lemma items_other_click: "dispatch (map ItemClick ks) (Click t m None) d = Inr d"
  by (induction ks) simp_all

lemma items_keydown: "dispatch (map ItemClick ks) (Keydown key) d = Inr d"
  by (induction ks) simp_all

lemma init_bound: "bound d \<Longrightarrow> MobileMenu_init d = Inr (listeners_of d)"
  by (auto simp: bound_def MobileMenu_init_def addEventListener_def listeners_of_def)

lemma dispatch_toggle_click:
  "dispatch ([ToggleClick] @ map ItemClick ks @ [DocumentClick, DocumentKeydown])
     (dom_event_of ToggleControlClick) d = toggleMenu d"
  by (cases "toggleMenu d") (simp_all add: dispatch_append items_other_click)

lemma dispatch_link_click:
  assumes "bound d" and "k \<in> set ks"
  shows "dispatch ([ToggleClick] @ map ItemClick ks @ [DocumentClick, DocumentKeydown])
     (dom_event_of (NavLinkClick k)) d = Inr (closed_of d)"
  using assms by (simp add: dispatch_append items_link_click)

lemma dispatch_outside_click:
  assumes "bound d"
  shows "dispatch ([ToggleClick] @ map ItemClick ks @ [DocumentClick, DocumentKeydown])
     (dom_event_of OutsideClick) d = Inr (closed_of d)"
  using assms by (simp add: dispatch_append items_other_click closeMenu_bound)

lemma dispatch_escape:
  assumes "bound d"
  shows "dispatch ([ToggleClick] @ map ItemClick ks @ [DocumentClick, DocumentKeydown])
     (dom_event_of EscapeKey) d = Inr (closed_of d)"
  using assms by (simp add: dispatch_append items_keydown closeMenu_bound)

text \<open>One event: the code's step and the specification's agree.\<close>

lemma menu_step:
  assumes "bound d" and "link_exists n e" and "menu_open d = (s = OPEN)"
  shows "\<exists>d'. dispatch ([ToggleClick] @ map ItemClick [0 ..< n] @ [DocumentClick, DocumentKeydown])
                 (dom_event_of e) d = Inr d'
          \<and> bound d' \<and> menuItems d' = menuItems d
          \<and> menu_open d' = (spec_step s e = OPEN) \<and> scroll_locked d' = menu_open d'"
proof (cases e)
  case ToggleControlClick
  from toggleMenu_bound [OF assms(1)] obtain d' where
    "toggleMenu d = Inr d'" "bound d'" "menuItems d' = menuItems d"
    "menu_open d' = (\<not> menu_open d)" "scroll_locked d' = menu_open d'"
    by blast
  with assms(3) ToggleControlClick show ?thesis
    unfolding ToggleControlClick dispatch_toggle_click by (cases s) simp_all
next
  case (NavLinkClick k)
  with assms(2) have "k \<in> set [0 ..< n]" by simp
  from dispatch_link_click [OF assms(1) this] assms(1) show ?thesis
    unfolding NavLinkClick by (cases s) simp_all
next
  case OutsideClick
  from dispatch_outside_click [OF assms(1)] assms(1) show ?thesis
    unfolding OutsideClick by (cases s) simp_all
next
  case EscapeKey
  from dispatch_escape [OF assms(1)] assms(1) show ?thesis
    unfolding EscapeKey by (cases s) simp_all
qed

lemma menu_steps:
  assumes "bound d" and "list_all (link_exists n) evs" and "menu_open d = (s = OPEN)"
    and "scroll_locked d = menu_open d"
  shows "\<exists>d'. dispatch_all ([ToggleClick] @ map ItemClick [0 ..< n] @ [DocumentClick, DocumentKeydown])
                 (map dom_event_of evs) d = Inr d'
          \<and> menu_open d' = (foldl spec_step s evs = OPEN) \<and> scroll_locked d' = menu_open d'"
  using assms
proof (induction evs arbitrary: d s)
  case Nil
  then show ?case by simp
next
  case (Cons e evs)
  from Cons.prems have e: "link_exists n e" and rest: "list_all (link_exists n) evs"
    by simp_all
  from menu_step [OF Cons.prems(1) e Cons.prems(3)] obtain d1 where d1:
    "dispatch ([ToggleClick] @ map ItemClick [0 ..< n] @ [DocumentClick, DocumentKeydown])
       (dom_event_of e) d = Inr d1"
    "bound d1" "menu_open d1 = (spec_step s e = OPEN)" "scroll_locked d1 = menu_open d1"
    by blast
  from Cons.IH [OF d1(2) rest d1(3) d1(4)] obtain d' where
    "dispatch_all ([ToggleClick] @ map ItemClick [0 ..< n] @ [DocumentClick, DocumentKeydown])
       (map dom_event_of evs) d1 = Inr d'"
    "menu_open d' = (foldl spec_step (spec_step s e) evs = OPEN)" "scroll_locked d' = menu_open d'"
    by blast
  with d1(1) show ?case by simp
qed

text \<open>
  C2. From the closed state (toggle and panel present, panel not \<open>active\<close>, scrolling
  not locked), for every sequence of toggle clicks, clicks on existing menu links,
  outside clicks and Escape keydowns, the widget handles every event without error, the
  panel is open afterwards exactly when the two-state machine of the specification,
  stepped from CLOSED through the same events, is in OPEN, and the body's overflow is
  \<open>hidden\<close> exactly when the panel is open. The sequence is arbitrary, so this holds
  after every event of a run.
\<close>

theorem mobile_menu_state_machine:
  assumes "toggle d \<noteq> None" and "menu d \<noteq> None"
    and "\<not> menu_open d" and "\<not> scroll_locked d"
    and "list_all (link_exists (menuItems d)) evs"
  shows "\<exists>d'. MobileMenu_run d (map dom_event_of evs) = Inr d'
          \<and> menu_open d' = (foldl spec_step CLOSED evs = OPEN)
          \<and> scroll_locked d' = menu_open d'"
proof -
  have b: "bound d" using assms(1,2) by (simp add: bound_def)
  have "\<exists>d'. dispatch_all (listeners_of d) (map dom_event_of evs) d = Inr d'
          \<and> menu_open d' = (foldl spec_step CLOSED evs = OPEN) \<and> scroll_locked d' = menu_open d'"
    unfolding listeners_of_def
    using b assms(5) assms(3,4) by (intro menu_steps) simp_all
  then show ?thesis
    by (simp add: MobileMenu_run_def init_bound [OF b])
qed

theorem mobile_menu_state_machine_witness:
  "MobileMenu_run sample_page
     (map dom_event_of [ToggleControlClick, NavLinkClick 1, EscapeKey, ToggleControlClick])
     = Inr \<lparr>toggle = Some [''mobile-menu-toggle'', ''active''],
            menu = Some [''nav-links'', ''active''], menuItems = 2, overflow = ''hidden''\<rparr>
   \<and> foldl spec_step CLOSED [ToggleControlClick, NavLinkClick 1, EscapeKey, ToggleControlClick] = OPEN"
proof -
  have "toggle sample_page \<noteq> None" "menu sample_page \<noteq> None"
    "\<not> menu_open sample_page" "\<not> scroll_locked sample_page"
    "list_all (link_exists (menuItems sample_page))
       [ToggleControlClick, NavLinkClick 1, EscapeKey, ToggleControlClick]"
    by (simp_all add: sample_page_def menu_open_def scroll_locked_def cl_contains_def)
  from mobile_menu_state_machine [OF this] obtain d' where
    "MobileMenu_run sample_page
      (map dom_event_of [ToggleControlClick, NavLinkClick 1, EscapeKey, ToggleControlClick]) = Inr d'"
    "menu_open d'" by auto
  moreover have "MobileMenu_run sample_page
     (map dom_event_of [ToggleControlClick, NavLinkClick 1, EscapeKey, ToggleControlClick])
     = Inr \<lparr>toggle = Some [''mobile-menu-toggle'', ''active''],
            menu = Some [''nav-links'', ''active''], menuItems = 2, overflow = ''hidden''\<rparr>"
    by (simp add: MobileMenu_run_def MobileMenu_init_def addEventListener_def sample_page_def
        upt_rec toggleMenu_def closeMenu_def cl_toggle_def cl_remove_def cl_contains_def)
  ultimately show ?thesis by simp
qed

section \<open>Properties of ScrollReveal\<close>

lemma reveal_entry_step_keeps:
  "visible st e \<Longrightarrow> visible (reveal_entry_step st x) e"
  by (simp add: visible_def reveal_entry_step_def)

lemma ScrollReveal_callback_keeps:
  "visible st e \<Longrightarrow> visible (ScrollReveal_callback entries st) e"
  unfolding ScrollReveal_callback_def
  by (induction entries arbitrary: st) (simp_all add: reveal_entry_step_keeps)

lemma ScrollHeader_tick_keeps:
  "cl_contains ''visible'' cs \<Longrightarrow> cl_contains ''visible'' (ScrollHeader_tick s cs)"
  by (simp add: ScrollHeader_tick_def)

lemma page_step_keeps:
  assumes "visible st e"
  shows "visible (page_step header st ev) e"
proof (cases ev)
  case (ObserverCallback entries)
  with assms show ?thesis by (simp add: ScrollReveal_callback_keeps)
next
  case (ScrollEvent s)
  with assms show ?thesis
    by (cases header) (auto simp: visible_def ScrollHeader_tick_keeps)
next
  case ResizeEvent
  with assms show ?thesis by simp
qed

text \<open>
  C7. Once an element carries \<open>visible\<close>, it carries it after every further sequence of
  observer callbacks, scroll events and resize events: nothing removes the marking, so
  the set of marked elements only grows.
\<close>

theorem scroll_reveal_monotone:
  assumes "visible st e"
  shows "visible (foldl (page_step header) st evs) e"
  using assms
  by (induction evs arbitrary: st) (simp_all add: page_step_keeps)

theorem scroll_reveal_monotone_witness:
  "visible (page_step (Some 0) blank_store
        (ObserverCallback [\<lparr>target = 0, isIntersecting = True\<rparr>])) 0
   \<and> visible (foldl (page_step (Some 0))
        (page_step (Some 0) blank_store (ObserverCallback [\<lparr>target = 0, isIntersecting = True\<rparr>]))
        [ObserverCallback [\<lparr>target = 0, isIntersecting = False\<rparr>], ScrollEvent 150,
         ScrollEvent 50, ResizeEvent]) 0"
proof -
  have v: "visible (page_step (Some 0) blank_store
        (ObserverCallback [\<lparr>target = 0, isIntersecting = True\<rparr>])) 0"
    by (simp add: visible_def ScrollReveal_callback_def reveal_entry_step_def blank_store_def)
  from scroll_reveal_monotone [OF v, where header = "Some 0" and evs =
      "[ObserverCallback [\<lparr>target = 0, isIntersecting = False\<rparr>], ScrollEvent 150,
        ScrollEvent 50, ResizeEvent]"] v
  show ?thesis by blast
qed

text \<open>An entry that intersects marks its target.\<close>

lemma scroll_reveal_marks:
  "visible (ScrollReveal_callback [\<lparr>target = e, isIntersecting = True\<rparr>] st) e"
  by (simp add: visible_def ScrollReveal_callback_def reveal_entry_step_def)


section \<open>Properties of TypingEffect\<close>

lemma typing_inv_new: "ws \<noteq> [] \<Longrightarrow> typing_inv (TypingEffect_new el ws ts ds dw)"
  by (simp add: typing_inv_def TypingEffect_new_def)

lemma type_step_inv:
  assumes "typing_inv st"
  shows "\<exists>st' d. type_step st = Inr (st', d) \<and> typing_inv st' \<and> words st' = words st
          \<and> charIndex st' = (if isDeleting st then charIndex st - 1 else charIndex st + 1)
          \<and> ((isDeleting st \<and> \<not> isDeleting st') = (charIndex st' = 0))"
proof -
  from assms have "0 < length (words st)"
    by (auto simp: typing_inv_def)
  then have "(wordIndex st + 1) mod length (words st) < length (words st)"
    by simp
  with assms show ?thesis
    by (auto simp: typing_inv_def type_step_def Let_def)
qed

lemma type_steps_inv:
  assumes "typing_inv st"
  shows "\<exists>st'. type_steps n st = Inr st' \<and> typing_inv st'"
  using assms
proof (induction n arbitrary: st)
  case 0
  then show ?case by simp
next
  case (Suc n)
  from type_step_inv [OF Suc.prems] obtain st1 d where
    "type_step st = Inr (st1, d)" "typing_inv st1" by blast
  with Suc.IH [of st1] show ?case by simp
qed

text \<open>
  C8. For a non-empty word list, after any number \<open>n\<close> of \<open>type()\<close> steps the widget is
  in a state \<open>st\<close> with a char index that is not negative, and the next step succeeds:
  it decrements the char index when deleting, which happens only while the index is
  positive, and increments it otherwise; the index stays non-negative; and the step
  clears the deleting flag exactly when it brings the char index to 0.
\<close>

theorem typing_char_index_never_negative:
  assumes "ws \<noteq> []"
  shows "\<exists>st st' d.
           type_steps n (TypingEffect_new el ws ts ds dw) = Inr st
           \<and> type_step st = Inr (st', d)
           \<and> 0 \<le> charIndex st \<and> 0 \<le> charIndex st'
           \<and> (if isDeleting st then 0 < charIndex st \<and> charIndex st' = charIndex st - 1
               else charIndex st' = charIndex st + 1)
           \<and> ((isDeleting st \<and> \<not> isDeleting st') = (charIndex st' = 0))"
proof -
  from type_steps_inv [OF typing_inv_new [OF assms]] obtain st where
    st: "type_steps n (TypingEffect_new el ws ts ds dw) = Inr st" "typing_inv st"
    by blast
  from type_step_inv [OF st(2)] obtain st' d where
    st': "type_step st = Inr (st', d)" "typing_inv st'"
    "charIndex st' = (if isDeleting st then charIndex st - 1 else charIndex st + 1)"
    "(isDeleting st \<and> \<not> isDeleting st') = (charIndex st' = 0)"
    by blast
  have "0 \<le> charIndex st" "0 \<le> charIndex st'"
    "if isDeleting st then 0 < charIndex st \<and> charIndex st' = charIndex st - 1
     else charIndex st' = charIndex st + 1"
    using st(2) st'(2,3) by (simp_all add: typing_inv_def)
  with st(1) st'(1,4) show ?thesis by blast
qed

theorem typing_char_index_never_negative_witness:
  "type_steps 4 (TypingEffect_new [] [''hi'', ''yo''] 100 50 2000)
     = Inr \<lparr>textContent = [], words = [''hi'', ''yo''], typingSpeed = 100, deletingSpeed = 50,
            delayBetweenWords = 2000, wordIndex = 1, charIndex = 0, isDeleting = False\<rparr>
   \<and> type_step \<lparr>textContent = [], words = [''hi'', ''yo''], typingSpeed = 100, deletingSpeed = 50,
            delayBetweenWords = 2000, wordIndex = 1, charIndex = 0, isDeleting = False\<rparr>
     = Inr (\<lparr>textContent = ''y'', words = [''hi'', ''yo''], typingSpeed = 100, deletingSpeed = 50,
            delayBetweenWords = 2000, wordIndex = 1, charIndex = 1, isDeleting = False\<rparr>, 100)"
  using typing_char_index_never_negative [of "[''hi'', ''yo'']" 4 "[]" 100 50 2000]
  by (simp add: numeral_eq_Suc type_step_def TypingEffect_new_def substring0_def Let_def)

text \<open>With no words the first step throws: \<open>undefined.substring\<close>.\<close>

lemma typing_no_words_throws: "type_step (TypingEffect_new el [] ts ds dw) = Inl TypeError"
  by (simp add: type_step_def TypingEffect_new_def)


section \<open>Properties of the script's load\<close>

lemma initComponents_returns:
  "initComponents io s = Inr () \<longleftrightarrow>
     io \<or> (site_fade_in s = [] \<and> (site_sections s = [] \<or> site_navLinks s = []))"
proof -
  obtain ls where "MobileMenu_init (site_menu s) = Inr ls"
    using MobileMenu_init_total [of "site_menu s"] by (cases "MobileMenu_init (site_menu s)") auto
  moreover obtain hs where "ScrollHeader_init (site_header s) = Inr hs"
    using ScrollHeader_init_total [of "site_header s"]
    by (cases "ScrollHeader_init (site_header s)") auto
  ultimately show ?thesis
    by (auto simp: initComponents_def SmoothScroll_init_total ScrollReveal_init_def
        ActiveSectionHighlighter_init_def new_IntersectionObserver_def)
qed

text \<open>\<open>new App()\<close> returns exactly when there is a document and, unless it is still
  loading, the constructors of the five widgets return.\<close>

lemma App_init_returns:
  "(\<exists>r. App_init rt = Inr r) \<longleftrightarrow>
     (case document rt of
        None \<Rightarrow> False
      | Some s \<Rightarrow> readyState s = ''loading'' \<or> initComponents (intersectionObserver rt) s = Inr ())"
  by (cases "document rt")
    (auto simp: App_init_def split: sum.splits)

text \<open>A throw of \<open>new App()\<close> ends the script before the export statement.\<close>

lemma load_script_aborts:
  assumes "App_init rt = Inl e"
  shows "load_script rt = (Some e, module_var rt)"
  using assms by (simp add: load_script_def)

lemma load_script_no_document:
  assumes "document rt = None"
  shows "load_script rt = (Some ReferenceError, module_var rt)"
  using assms by (simp add: load_script_def App_init_def)

text \<open>
  C9 (as amended). In a host with \<open>module\<close> defined and \<open>module.exports\<close> truthy, and
  in which the script's \<open>new App()\<close> returns (there is a \<open>document\<close>, and it is still
  loading, or \<open>IntersectionObserver\<close> is defined, or no widget needs an observer),
  loading the script throws nothing and sets the exports to an object with exactly the
  seven constructors MobileMenu, SmoothScroll, ScrollHeader, ScrollReveal,
  CursorTrail, TypingEffect and ActiveSectionHighlighter, each under its own name. Of
  the classes the script declares, PerformanceMonitor, Preloader and App are the ones
  not exported.
\<close>

theorem exports_seven_after_app_start:
  assumes "document rt = Some s"
    and "readyState s = ''loading'' \<or> intersectionObserver rt
         \<or> (site_fade_in s = [] \<and> (site_sections s = [] \<or> site_navLinks s = []))"
    and "module_var rt = Some (Some old)"
  shows "load_script rt = (None, Some (Some exports_literal))
   \<and> map fst exports_literal =
       [''MobileMenu'', ''SmoothScroll'', ''ScrollHeader'', ''ScrollReveal'', ''CursorTrail'',
        ''TypingEffect'', ''ActiveSectionHighlighter'']
   \<and> map snd exports_literal =
       [MobileMenu, SmoothScroll, ScrollHeader, ScrollReveal, CursorTrail, TypingEffect,
        ActiveSectionHighlighter]
   \<and> filter (\<lambda>c. c \<notin> snd ` set exports_literal) declared_classes
       = [PerformanceMonitor, Preloader, App]"
proof -
  have "\<exists>r. App_init rt = Inr r"
    using assms(1,2) by (auto simp: App_init_returns initComponents_returns)
  then have "load_script rt = (None, Some (Some exports_literal))"
    using assms(3) by (auto simp: load_script_def export_on_load_def)
  then show ?thesis
    by (simp add: exports_literal_def declared_classes_def)
qed

theorem exports_seven_after_app_start_witness:
  "load_script bundle_runtime = (None, Some (Some exports_literal))
   \<and> map fst exports_literal =
       [''MobileMenu'', ''SmoothScroll'', ''ScrollHeader'', ''ScrollReveal'', ''CursorTrail'',
        ''TypingEffect'', ''ActiveSectionHighlighter'']"
  using exports_seven_after_app_start [of bundle_runtime parsed_site "[]"]
  by (simp add: bundle_runtime_def)

text \<open>
  C9 as stated fails: under Node without a DOM, \<open>module.exports\<close> is there and the
  script throws a ReferenceError at \<open>new App()\<close>; the exports stay the empty object.
\<close>

theorem exports_node_counterexample:
  "load_script node_runtime = (Some ReferenceError, Some (Some []))
   \<and> snd (load_script node_runtime) \<noteq> Some (Some exports_literal)"
  by (simp add: load_script_def App_init_def node_runtime_def exports_literal_def)

text \<open>A document already parsed in a host without \<open>IntersectionObserver\<close>: the same.\<close>

lemma exports_no_observer:
  "load_script (bundle_runtime\<lparr>intersectionObserver := False\<rparr>)
     = (Some ReferenceError, Some (Some []))"
  by (simp add: load_script_def App_init_def bundle_runtime_def parsed_site_def
      initComponents_def MobileMenu_init_def addEventListener_def SmoothScroll_init_total
      ScrollHeader_init_def ScrollReveal_init_def new_IntersectionObserver_def)

text \<open>Without \<open>module\<close>, or with falsy exports, nothing is assigned.\<close>

lemma exports_untouched: "export_on_load None = None \<and> export_on_load (Some None) = Some None"
  by (simp add: export_on_load_def)

end
